theory Spec2Isabelle
  imports Main "HOL-Library.Sublist" "HOL-Library.Word"
begin

section \<open>Python values used by the notebook\<close>

text \<open>
  The notebook \<^verbatim>\<open>How_to_find_and_access_EMIT_data.ipynb\<close> is a linear script. Its own logic
  is the asset filter of cell 29, the stream cell 31 and the download loop of cell 33.
  Strings are character lists (a URL is ASCII text); an exception is a value of
  \<open>py_error\<close>, and a computation that may raise returns \<open>py_error + 'a\<close> with \<open>Inl\<close> for
  the exception.
\<close>

datatype py_error = IndexError | LibraryError string

text \<open>\<^verbatim>\<open>xs[i]\<close> on a list: a negative index counts from the end, an index out of range raises.\<close>

definition getitem :: "'a list \<Rightarrow> int \<Rightarrow> py_error + 'a" where
  "getitem xs i =
     (let k = (if i < 0 then i + int (length xs) else i)
      in if k < 0 \<or> int (length xs) \<le> k then Inl IndexError else Inr (xs ! nat k))"

text \<open>
  \<^verbatim>\<open>s.split(sep)\<close> for a one-character separator: the pieces between the separators, in
  order; a string without the separator (also the empty string) gives one piece.
\<close>

fun split :: "'a \<Rightarrow> 'a list \<Rightarrow> 'a list list" where
  "split sep [] = [[]]"
| "split sep (c # cs) =
     (if c = sep then [] # split sep cs
      else (case split sep cs of [] \<Rightarrow> [[c]] | piece # pieces \<Rightarrow> (c # piece) # pieces))"

text \<open>\<^verbatim>\<open>s.startswith(t)\<close> and the substring test \<^verbatim>\<open>t in s\<close>.\<close>

fun startswith :: "'a list \<Rightarrow> 'a list \<Rightarrow> bool" where
  "startswith s [] = True"
| "startswith [] (t # ts) = False"
| "startswith (c # cs) (t # ts) = (c = t \<and> startswith cs ts)"

fun str_in :: "'a list \<Rightarrow> 'a list \<Rightarrow> bool" where
  "str_in t [] = (t = [])"
| "str_in t (c # cs) = (startswith (c # cs) t \<or> str_in t cs)"

text \<open>\<^verbatim>\<open>any(...)\<close> over the values a generator yields: true at the first true value.\<close>

fun any :: "bool list \<Rightarrow> bool" where
  "any [] = False"
| "any (b # bs) = (if b then True else any bs)"

section \<open>Cell 29: filtering the asset links\<close>

text \<open>
  \<^verbatim>\<open>
  filtered_asset_links = []
  desired_assets = ['RFL_']
  for n, granule in enumerate(emit_results_urls):
      for url in granule:
          asset_name = url.split('/')[-1]
          if any(asset in asset_name for asset in desired_assets):
              filtered_asset_links.append(url)
  \<close>
  \<open>asset_name\<close> is the expression \<^verbatim>\<open>url.split('/')[-1]\<close>, which the stream and download
  cells repeat as \<open>granule_asset_id\<close>. The inner and the outer loop pass the list built so
  far; an exception ends both.
\<close>

definition asset_name :: "string \<Rightarrow> py_error + string" where
  "asset_name url = getitem (split CHR ''/'' url) (- 1)"

definition wanted :: "string list \<Rightarrow> string \<Rightarrow> bool" where
  "wanted desired_assets name = any (map (\<lambda>asset. str_in asset name) desired_assets)"

fun filter_granule :: "string list \<Rightarrow> string list \<Rightarrow> string list \<Rightarrow> py_error + string list" where
  "filter_granule desired_assets [] links = Inr links"
| "filter_granule desired_assets (url # granule) links =
     (case asset_name url of
        Inl e \<Rightarrow> Inl e
      | Inr name \<Rightarrow>
          filter_granule desired_assets granule
            (if wanted desired_assets name then links @ [url] else links))"

fun filter_granules :: "string list \<Rightarrow> string list list \<Rightarrow> string list \<Rightarrow> py_error + string list" where
  "filter_granules desired_assets [] links = Inr links"
| "filter_granules desired_assets (granule # rest) links =
     (case filter_granule desired_assets granule links of
        Inl e \<Rightarrow> Inl e
      | Inr links' \<Rightarrow> filter_granules desired_assets rest links')"

definition filtered_asset_links :: "string list \<Rightarrow> string list list \<Rightarrow> py_error + string list" where
  "filtered_asset_links desired_assets emit_results_urls =
     filter_granules desired_assets emit_results_urls []"

section \<open>Cell 31: streaming the first filtered asset\<close>

text \<open>
  \<^verbatim>\<open>
  fs = earthaccess.get_fsspec_https_session()
  url = filtered_asset_links[0]
  granule_asset_id = url.split('/')[-1]
  fp = fs.open(url)
  ds = emit_xarray(fp)
  \<close>
  The session, its \<open>open\<close> and \<open>emit_xarray\<close> (of the module \<^verbatim>\<open>emit_tools\<close>) are not
  code of the notebook: they are the fields of an environment, each able to raise. The
  statements run in the order of the cell and the first exception ends it.
\<close>

record ('s, 'h, 'd) stream_env =
  get_fsspec_https_session :: "py_error + 's"
  fs_open :: "'s \<Rightarrow> string \<Rightarrow> py_error + 'h"
  emit_xarray :: "'h \<Rightarrow> py_error + 'd"

definition stream_cell :: "('s, 'h, 'd) stream_env \<Rightarrow> string list \<Rightarrow> py_error + 'd" where
  "stream_cell env links =
     (case get_fsspec_https_session env of
        Inl e \<Rightarrow> Inl e
      | Inr fs \<Rightarrow>
          (case getitem links 0 of
             Inl e \<Rightarrow> Inl e
           | Inr url \<Rightarrow>
               (case asset_name url of
                  Inl e \<Rightarrow> Inl e
                | Inr granule_asset_id \<Rightarrow>
                    (case fs_open env fs url of
                       Inl e \<Rightarrow> Inl e
                     | Inr fp \<Rightarrow> emit_xarray env fp))))"

section \<open>Cell 33: downloading the filtered assets\<close>

text \<open>
  \<^verbatim>\<open>
  fs = earthaccess.get_requests_https_session()
  for url in filtered_asset_links:
      granule_asset_id = url.split('/')[-1]
      fp = f'../../data/{granule_asset_id}'
      if not os.path.isfile(fp):
          with fs.get(url,stream=True) as src:
              with open(fp,'wb') as dst:
                  for chunk in src.iter_content(chunk_size=64*1024*1024):
                      dst.write(chunk)
  \<close>
  The state the cell acts on is a \<open>world\<close>: the regular files of the local store by path
  (\<open>os.path.isfile\<close> asks whether the path is one of them), the paths at which
  \<open>open(fp,'wb')\<close> raises, with the exception (the data directory is missing, the path
  names a directory as for the asset names \<open>''\<close>, \<open>.\<close> and \<open>..\<close>, the name is not one
  the file system takes, writing is not permitted), the requests sent so far and the
  \<open>write\<close> calls made so far, both in order. Where \<open>open\<close> does not raise it creates or
  empties the file, and \<open>write\<close> appends to it.

  The session and the response are not code of the notebook. \<open>fs.get(url,stream=True)\<close>
  raises or returns a response whose body is still to be read; the response is given by
  what \<open>iter_content\<close> does for a chunk size: the pieces it yields, in order, and the
  exception, if any, that ends the stream after them. Nothing is fixed on the sizes of
  the pieces. The statements run in the order of the cell: request, \<open>open\<close>, then one
  \<open>write\<close> per piece; the first exception ends the loop and leaves the state as it is then.
\<close>

type_synonym bytes = "8 word list"

record world =
  files :: "string \<rightharpoonup> bytes"
  open_raises :: "string \<rightharpoonup> py_error"
  requests :: "string list"
  writes :: "(string \<times> bytes) list"

record response =
  iter_content :: "nat \<Rightarrow> bytes list \<times> py_error option"

record 's download_env =
  get_requests_https_session :: "py_error + 's"
  fs_get :: "'s \<Rightarrow> string \<Rightarrow> py_error + response"

definition data_dir :: string where
  "data_dir = ''../../data/''"

definition chunk_size :: nat where
  "chunk_size = 64 * 1024 * 1024"

definition isfile :: "world \<Rightarrow> string \<Rightarrow> bool" where
  "isfile w fp = (case files w fp of None \<Rightarrow> False | Some content \<Rightarrow> True)"

definition open_wb :: "string \<Rightarrow> world \<Rightarrow> py_error + world" where
  "open_wb fp w =
     (case open_raises w fp of
        Some e \<Rightarrow> Inl e
      | None \<Rightarrow> Inr (w\<lparr>files := (files w)(fp \<mapsto> [])\<rparr>))"

definition dst_write :: "string \<Rightarrow> bytes \<Rightarrow> world \<Rightarrow> world" where
  "dst_write fp chunk w =
     w\<lparr>files := (files w)(fp \<mapsto> (case files w fp of None \<Rightarrow> chunk | Some old \<Rightarrow> old @ chunk)),
       writes := writes w @ [(fp, chunk)]\<rparr>"

fun write_chunks :: "string \<Rightarrow> bytes list \<Rightarrow> world \<Rightarrow> world" where
  "write_chunks fp [] w = w"
| "write_chunks fp (chunk # chunks) w = write_chunks fp chunks (dst_write fp chunk w)"

definition download_url :: "(string \<Rightarrow> py_error + response) \<Rightarrow> string \<Rightarrow> world \<Rightarrow> py_error option \<times> world" where
  "download_url get url w =
     (case asset_name url of
        Inl e \<Rightarrow> (Some e, w)
      | Inr granule_asset_id \<Rightarrow>
          (let fp = data_dir @ granule_asset_id
           in if \<not> isfile w fp
              then (let w1 = w\<lparr>requests := requests w @ [url]\<rparr>
                    in case get url of
                         Inl e \<Rightarrow> (Some e, w1)
                       | Inr src \<Rightarrow>
                           (case open_wb fp w1 of
                              Inl e \<Rightarrow> (Some e, w1)
                            | Inr w2 \<Rightarrow>
                                (case iter_content src chunk_size of
                                   (chunks, stop) \<Rightarrow> (stop, write_chunks fp chunks w2))))
              else (None, w)))"

fun download_loop :: "(string \<Rightarrow> py_error + response) \<Rightarrow> string list \<Rightarrow> world \<Rightarrow> py_error option \<times> world" where
  "download_loop get [] w = (None, w)"
| "download_loop get (url # links) w =
     (case download_url get url w of
        (Some e, w') \<Rightarrow> (Some e, w')
      | (None, w') \<Rightarrow> download_loop get links w')"

definition download_cell :: "'s download_env \<Rightarrow> string list \<Rightarrow> world \<Rightarrow> py_error option \<times> world" where
  "download_cell env links w =
     (case get_requests_https_session env of
        Inl e \<Rightarrow> (Some e, w)
      | Inr fs \<Rightarrow> download_loop (fs_get env fs) links w)"

section \<open>Strings: \<open>split\<close>, the substring test and \<open>any\<close>\<close>

lemma split_not_Nil: "split sep s \<noteq> []"
  by (induction s) (auto split: list.splits)

lemma split_no_sep: "sep \<notin> set s \<Longrightarrow> split sep s = [s]"
  by (induction s) auto

lemma split_append_sep: "split sep (pre @ sep # rest) = split sep pre @ split sep rest"
  by (induction pre) (auto simp: split_not_Nil split: list.splits)

lemma last_split_after_sep:
  assumes "sep \<notin> set rest"
  shows "last (split sep (pre @ sep # rest)) = rest"
  using assms by (simp add: split_append_sep split_not_Nil split_no_sep)

lemma last_split_cases:
  "(sep \<notin> set s \<and> last (split sep s) = s) \<or>
   (\<exists>pre rest. s = pre @ sep # rest \<and> sep \<notin> set rest \<and> last (split sep s) = rest)"
proof (cases "sep \<in> set s")
  case True
  then obtain pre rest where "s = pre @ sep # rest" and "sep \<notin> set rest"
    by (auto dest: split_list_last)
  then show ?thesis using last_split_after_sep [of sep rest pre] by blast
next
  case False
  then show ?thesis by (simp add: split_no_sep)
qed

lemma startswith_prefix: "startswith s t \<longleftrightarrow> prefix t s"
  by (induction s t rule: startswith.induct) auto

lemma str_in_sublist: "str_in t s \<longleftrightarrow> sublist t s"
  by (induction s) (auto simp: startswith_prefix sublist_Cons_right)

lemma any_iff: "any bs \<longleftrightarrow> True \<in> set bs"
  by (induction bs) auto

lemma wanted_iff: "wanted desired_assets name \<longleftrightarrow> (\<exists>asset \<in> set desired_assets. sublist asset name)"
  by (auto simp: wanted_def any_iff str_in_sublist)

lemma asset_name_last: "asset_name url = Inr (last (split CHR ''/'' url))"
  using split_not_Nil [of "CHR ''/''" url]
  by (cases "split CHR ''/'' url" rule: rev_cases) (auto simp: asset_name_def getitem_def nth_append)

lemma filter_granule_eq:
  "filter_granule desired_assets granule links =
     Inr (links @ filter (\<lambda>url. wanted desired_assets (last (split CHR ''/'' url))) granule)"
  by (induction granule arbitrary: links) (simp_all add: asset_name_last)

lemma filter_granules_eq:
  "filter_granules desired_assets granules links =
     Inr (links @ filter (\<lambda>url. wanted desired_assets (last (split CHR ''/'' url))) (concat granules))"
  by (induction granules arbitrary: links) (simp_all add: filter_granule_eq)

lemma asset_name_final_segment:
  "\<exists>name. asset_name url = Inr name \<and> CHR ''/'' \<notin> set name \<and>
     (url = name \<or> (\<exists>pre. url = pre @ CHR ''/'' # name))"
  using last_split_cases [of "CHR ''/''" url] by (auto simp: asset_name_last)

section \<open>The download loop: one pass and the whole loop\<close>

lemma requests_write_chunks: "requests (write_chunks fp chunks w) = requests w"
  by (induction chunks arbitrary: w) (simp_all add: dst_write_def)

lemma writes_write_chunks: "writes (write_chunks fp chunks w) = writes w @ map (Pair fp) chunks"
  by (induction chunks arbitrary: w) (simp_all add: dst_write_def)

lemma open_raises_write_chunks: "open_raises (write_chunks fp chunks w) = open_raises w"
  by (induction chunks arbitrary: w) (simp_all add: dst_write_def)

lemma files_write_chunks:
  "files w fp = Some old \<Longrightarrow>
   files (write_chunks fp chunks w) = (files w)(fp \<mapsto> old @ concat chunks)"
  by (induction chunks arbitrary: w old) (simp_all add: dst_write_def fun_upd_idem)

lemma download_url_skip:
  "asset_name url = Inr name \<Longrightarrow> isfile w (data_dir @ name) \<Longrightarrow> download_url get url w = (None, w)"
  by (simp add: download_url_def Let_def)

lemma download_url_get_raises:
  "asset_name url = Inr name \<Longrightarrow> \<not> isfile w (data_dir @ name) \<Longrightarrow> get url = Inl e \<Longrightarrow>
   download_url get url w = (Some e, w\<lparr>requests := requests w @ [url]\<rparr>)"
  by (simp add: download_url_def Let_def)

lemma download_url_open_raises:
  "asset_name url = Inr name \<Longrightarrow> \<not> isfile w (data_dir @ name) \<Longrightarrow> get url = Inr src \<Longrightarrow>
   open_raises w (data_dir @ name) = Some e \<Longrightarrow>
   download_url get url w = (Some e, w\<lparr>requests := requests w @ [url]\<rparr>)"
  by (simp add: download_url_def Let_def open_wb_def)

lemma download_url_stream:
  assumes "asset_name url = Inr name" and "\<not> isfile w (data_dir @ name)" and "get url = Inr src"
    and "open_raises w (data_dir @ name) = None"
    and "iter_content src chunk_size = (chunks, stop)"
  shows "download_url get url w =
    (stop, w\<lparr>files := (files w)(data_dir @ name \<mapsto> concat chunks),
             requests := requests w @ [url],
             writes := writes w @ map (Pair (data_dir @ name)) chunks\<rparr>)"
proof -
  let ?fp = "data_dir @ name"
  let ?w1 = "w\<lparr>requests := requests w @ [url]\<rparr>"
  let ?w2 = "?w1\<lparr>files := (files ?w1)(?fp \<mapsto> [])\<rparr>"
  let ?w3 = "write_chunks ?fp chunks ?w2"
  have opened: "files ?w2 ?fp = Some []" by simp
  have "files ?w3 = (files w)(?fp \<mapsto> concat chunks)"
    using files_write_chunks [OF opened, of chunks] by simp
  moreover have "requests ?w3 = requests w @ [url]"
    by (simp add: requests_write_chunks)
  moreover have "writes ?w3 = writes w @ map (Pair ?fp) chunks"
    by (simp add: writes_write_chunks)
  moreover have "open_raises ?w3 = open_raises w"
    by (simp add: open_raises_write_chunks)
  moreover have "download_url get url w = (stop, ?w3)"
    using assms by (simp add: download_url_def Let_def open_wb_def)
  ultimately show ?thesis by simp
qed

lemma download_url_cases:
  assumes "asset_name url = Inr name"
  obtains (skip) "isfile w (data_dir @ name)" "download_url get url w = (None, w)"
  | (raise) e where "\<not> isfile w (data_dir @ name)"
      "download_url get url w = (Some e, w\<lparr>requests := requests w @ [url]\<rparr>)"
  | (stream) src chunks stop where "\<not> isfile w (data_dir @ name)" "get url = Inr src"
      "iter_content src chunk_size = (chunks, stop)"
      "download_url get url w =
        (stop, w\<lparr>files := (files w)(data_dir @ name \<mapsto> concat chunks),
                 requests := requests w @ [url],
                 writes := writes w @ map (Pair (data_dir @ name)) chunks\<rparr>)"
proof (cases "isfile w (data_dir @ name)")
  case True
  then show ?thesis using assms skip download_url_skip by blast
next
  case False
  show ?thesis
  proof (cases "get url")
    case (Inl e)
    then show ?thesis using assms False raise download_url_get_raises by blast
  next
    case (Inr src)
    show ?thesis
    proof (cases "open_raises w (data_dir @ name)")
      case (Some e)
      then show ?thesis using assms False Inr raise download_url_open_raises by blast
    next
      case None
      obtain chunks stop where "iter_content src chunk_size = (chunks, stop)"
        by (cases "iter_content src chunk_size")
      then show ?thesis using assms False Inr None stream download_url_stream by blast
    qed
  qed
qed

lemma isfile_mono: "files w \<subseteq>\<^sub>m files w' \<Longrightarrow> isfile w p \<Longrightarrow> isfile w' p"
  by (auto simp: isfile_def map_le_def dom_def split: option.splits)

lemma download_url_step:
  assumes "download_url get url w = (err, w')"
  defines "fp \<equiv> data_dir @ last (split CHR ''/'' url)"
  shows "files w \<subseteq>\<^sub>m files w'"
    and "\<And>p. p \<noteq> fp \<Longrightarrow> files w' p = files w p"
    and "\<exists>sent. requests w' = requests w @ sent \<and> (sent = [] \<or> sent = [url] \<and> \<not> isfile w fp)"
    and "\<exists>written. writes w' = writes w @ written \<and> fst ` set written \<subseteq> {fp} \<and>
           (written = [] \<or> \<not> isfile w fp)"
    and "err = None \<Longrightarrow> isfile w' fp"
    and "err = None \<Longrightarrow> requests w' \<noteq> requests w \<Longrightarrow>
           \<exists>src chunks. get url = Inr src \<and> iter_content src chunk_size = (chunks, None) \<and>
             files w' fp = Some (concat chunks)"
    and "requests w' = requests w \<Longrightarrow> files w' = files w"
proof -
  note name = asset_name_last [of url]
  have "files w \<subseteq>\<^sub>m files w' \<and>
    (\<forall>p. p \<noteq> fp \<longrightarrow> files w' p = files w p) \<and>
    (\<exists>sent. requests w' = requests w @ sent \<and> (sent = [] \<or> sent = [url] \<and> \<not> isfile w fp)) \<and>
    (\<exists>written. writes w' = writes w @ written \<and> fst ` set written \<subseteq> {fp} \<and>
           (written = [] \<or> \<not> isfile w fp)) \<and>
    (err = None \<longrightarrow> isfile w' fp) \<and>
    (err = None \<longrightarrow> requests w' \<noteq> requests w \<longrightarrow>
       (\<exists>src chunks. get url = Inr src \<and> iter_content src chunk_size = (chunks, None) \<and>
             files w' fp = Some (concat chunks))) \<and>
    (requests w' = requests w \<longrightarrow> files w' = files w)"
    using name
  proof (cases rule: download_url_cases [where w = w and get = get])
    case skip
    with assms(1) show ?thesis by (auto simp: fp_def)
  next
    case (raise e)
    with assms(1) show ?thesis by (auto simp: fp_def)
  next
    case (stream src chunks stop)
    then have "files w fp = None" by (simp add: isfile_def fp_def split: option.splits)
    with stream assms(1) show ?thesis
      by (auto simp: isfile_def map_le_def fp_def)
  qed
  then show "files w \<subseteq>\<^sub>m files w'"
    and "\<And>p. p \<noteq> fp \<Longrightarrow> files w' p = files w p"
    and "\<exists>sent. requests w' = requests w @ sent \<and> (sent = [] \<or> sent = [url] \<and> \<not> isfile w fp)"
    and "\<exists>written. writes w' = writes w @ written \<and> fst ` set written \<subseteq> {fp} \<and>
           (written = [] \<or> \<not> isfile w fp)"
    and "err = None \<Longrightarrow> isfile w' fp"
    and "err = None \<Longrightarrow> requests w' \<noteq> requests w \<Longrightarrow>
           \<exists>src chunks. get url = Inr src \<and> iter_content src chunk_size = (chunks, None) \<and>
             files w' fp = Some (concat chunks)"
    and "requests w' = requests w \<Longrightarrow> files w' = files w"
    by blast+
qed

lemma download_loop_Cons:
  assumes "download_loop get (url # links) w = (err, w')"
  obtains (stop) e where "download_url get url w = (Some e, w')" "err = Some e"
  | (continue) w1 where "download_url get url w = (None, w1)" "download_loop get links w1 = (err, w')"
  using assms by (auto split: prod.splits option.splits)

lemma download_loop_files_mono:
  "download_loop get links w = (err, w') \<Longrightarrow> files w \<subseteq>\<^sub>m files w'"
proof (induction links arbitrary: w)
  case Nil
  then show ?case by simp
next
  case (Cons url links)
  from Cons.prems show ?case
  proof (cases rule: download_loop_Cons)
    case (stop e)
    from stop(1) show ?thesis by (rule download_url_step(1))
  next
    case (continue w1)
    from download_url_step(1) [OF continue(1)] Cons.IH [OF continue(2)]
    show ?thesis by (rule map_le_trans)
  qed
qed

lemma download_loop_changed:
  "download_loop get links w = (err, w') \<Longrightarrow> files w' p \<noteq> files w p \<Longrightarrow>
   \<exists>url \<in> set links. p = data_dir @ last (split CHR ''/'' url)"
proof (induction links arbitrary: w)
  case Nil
  then show ?case by simp
next
  case (Cons url links)
  from Cons.prems(1) show ?case
  proof (cases rule: download_loop_Cons)
    case (stop e)
    with Cons.prems(2) download_url_step(2) [OF stop(1), of p] show ?thesis by auto
  next
    case (continue w1)
    show ?thesis
    proof (cases "files w' p = files w1 p")
      case True
      with Cons.prems(2) download_url_step(2) [OF continue(1), of p] show ?thesis by auto
    next
      case False
      with Cons.IH [OF continue(2)] show ?thesis by auto
    qed
  qed
qed

lemma download_loop_requests:
  "download_loop get links w = (err, w') \<Longrightarrow>
   \<exists>sent. requests w' = requests w @ sent \<and>
     (\<forall>url \<in> set sent. url \<in> set links \<and> \<not> isfile w (data_dir @ last (split CHR ''/'' url))) \<and>
     distinct (map (\<lambda>url. last (split CHR ''/'' url)) sent) \<and>
     (err = None \<longrightarrow>
        (\<forall>url \<in> set sent. \<exists>src chunks. get url = Inr src \<and>
           iter_content src chunk_size = (chunks, None) \<and>
           files w' (data_dir @ last (split CHR ''/'' url)) = Some (concat chunks))) \<and>
     (\<forall>p. isfile w' p \<longrightarrow> isfile w p \<or>
        (\<exists>url \<in> set sent. p = data_dir @ last (split CHR ''/'' url)))"
proof (induction links arbitrary: w)
  case Nil
  then show ?case by simp
next
  case (Cons url links)
  let ?seg = "\<lambda>u. last (split CHR ''/'' u)"
  from Cons.prems(1) show ?case
  proof (cases rule: download_loop_Cons)
    case (stop e)
    from download_url_step(3) [OF stop(1)] obtain s1 where
      s1: "requests w' = requests w @ s1"
          "s1 = [] \<or> s1 = [url] \<and> \<not> isfile w (data_dir @ ?seg url)" by blast
    have "isfile w p \<or> (\<exists>u \<in> set s1. p = data_dir @ ?seg u)" if "isfile w' p" for p
    proof (cases "files w' p = files w p")
      case True
      with that show ?thesis by (simp add: isfile_def)
    next
      case False
      with download_url_step(2) [OF stop(1), of p] have p: "p = data_dir @ ?seg url" by auto
      from False download_url_step(7) [OF stop(1)] s1(1) have "s1 \<noteq> []" by auto
      with s1(2) p show ?thesis by auto
    qed
    with s1 stop(2) show ?thesis by fastforce
  next
    case (continue w1)
    from download_url_step(3) [OF continue(1)] obtain s1 where
      s1: "requests w1 = requests w @ s1"
          "s1 = [] \<or> s1 = [url] \<and> \<not> isfile w (data_dir @ ?seg url)" by blast
    from Cons.IH [OF continue(2)] obtain s2 where
      s2: "requests w' = requests w1 @ s2"
          "\<forall>u \<in> set s2. u \<in> set links \<and> \<not> isfile w1 (data_dir @ ?seg u)"
          "distinct (map ?seg s2)"
          "err = None \<longrightarrow> (\<forall>u \<in> set s2. \<exists>src chunks. get u = Inr src \<and>
             iter_content src chunk_size = (chunks, None) \<and>
             files w' (data_dir @ ?seg u) = Some (concat chunks))"
          "\<forall>p. isfile w' p \<longrightarrow> isfile w1 p \<or> (\<exists>u \<in> set s2. p = data_dir @ ?seg u)" by blast
    have mono: "\<And>p. \<not> isfile w1 p \<Longrightarrow> \<not> isfile w p"
      using isfile_mono [OF download_url_step(1) [OF continue(1)]] by blast
    have there: "isfile w1 (data_dir @ ?seg url)"
      using download_url_step(5) [OF continue(1)] by simp
    have eq: "requests w' = requests w @ (s1 @ s2)" using s1 s2 by simp
    have old: "\<forall>u \<in> set (s1 @ s2). u \<in> set (url # links) \<and> \<not> isfile w (data_dir @ ?seg u)"
      using s1 s2(2) mono by auto
    have fresh: "?seg url \<notin> ?seg ` set s2"
      using there s2(2) by auto
    have dist: "distinct (map ?seg (s1 @ s2))"
      using s1(2) s2(3) fresh by auto
    have cont: "\<exists>src chunks. get u = Inr src \<and> iter_content src chunk_size = (chunks, None) \<and>
             files w' (data_dir @ ?seg u) = Some (concat chunks)"
      if "err = None" and "u \<in> set (s1 @ s2)" for u
    proof (cases "u \<in> set s2")
      case True
      with s2(4) that(1) show ?thesis by blast
    next
      case False
      with that(2) s1(2) have u: "u = url" "s1 = [url]" by auto
      with s1(1) have "requests w1 \<noteq> requests w" by simp
      from download_url_step(6) [OF continue(1) refl this] obtain src chunks where
        got: "get url = Inr src" "iter_content src chunk_size = (chunks, None)"
          "files w1 (data_dir @ ?seg url) = Some (concat chunks)" by blast
      from download_loop_files_mono [OF continue(2)] got(3)
      have "files w' (data_dir @ ?seg url) = Some (concat chunks)"
        by (auto simp: map_le_def dom_def)
      with got u show ?thesis by blast
    qed
    have new: "isfile w p \<or> (\<exists>u \<in> set (s1 @ s2). p = data_dir @ ?seg u)" if "isfile w' p" for p
    proof (cases "isfile w1 p")
      case False
      with that s2(5) show ?thesis by auto
    next
      case True
      show ?thesis
      proof (cases "files w1 p = files w p")
        case same: True
        with True show ?thesis by (simp add: isfile_def)
      next
        case False
        with download_url_step(2) [OF continue(1), of p] have p: "p = data_dir @ ?seg url" by auto
        from False download_url_step(7) [OF continue(1)] s1(1) have "s1 \<noteq> []" by auto
        with s1(2) p show ?thesis by auto
      qed
    qed
    from eq old dist cont new show ?thesis by blast
  qed
qed

lemma download_loop_writes:
  "download_loop get links w = (err, w') \<Longrightarrow>
   \<exists>written. writes w' = writes w @ written \<and>
     (\<forall>entry \<in> set written. \<not> isfile w (fst entry) \<and>
        (\<exists>url \<in> set links. fst entry = data_dir @ last (split CHR ''/'' url)))"
proof (induction links arbitrary: w)
  case Nil
  then show ?case by simp
next
  case (Cons url links)
  from Cons.prems(1) show ?case
  proof (cases rule: download_loop_Cons)
    case (stop e)
    from download_url_step(4) [OF stop(1)] show ?thesis by fastforce
  next
    case (continue w1)
    from download_url_step(4) [OF continue(1)] obtain n1 where
      n1: "writes w1 = writes w @ n1" "fst ` set n1 \<subseteq> {data_dir @ last (split CHR ''/'' url)}"
          "n1 = [] \<or> \<not> isfile w (data_dir @ last (split CHR ''/'' url))" by blast
    from Cons.IH [OF continue(2)] obtain n2 where
      n2: "writes w' = writes w1 @ n2"
          "\<forall>entry \<in> set n2. \<not> isfile w1 (fst entry) \<and>
             (\<exists>u \<in> set links. fst entry = data_dir @ last (split CHR ''/'' u))" by blast
    have mono: "\<And>p. \<not> isfile w1 p \<Longrightarrow> \<not> isfile w p"
      using isfile_mono [OF download_url_step(1) [OF continue(1)]] by blast
    have "writes w' = writes w @ (n1 @ n2)" using n1 n2 by simp
    moreover have "\<forall>entry \<in> set (n1 @ n2). \<not> isfile w (fst entry) \<and>
        (\<exists>u \<in> set (url # links). fst entry = data_dir @ last (split CHR ''/'' u))"
      using n1 n2 mono by fastforce
    ultimately show ?thesis by blast
  qed
qed

lemma download_loop_all_present:
  "download_loop get links w = (None, w') \<Longrightarrow> url \<in> set links \<Longrightarrow>
   isfile w' (data_dir @ last (split CHR ''/'' url))"
proof (induction links arbitrary: w)
  case Nil
  then show ?case by simp
next
  case (Cons u links)
  from Cons.prems(1) show ?case
  proof (cases rule: download_loop_Cons)
    case (stop e)
    then show ?thesis by simp
  next
    case (continue w1)
    show ?thesis
    proof (cases "url = u")
      case True
      from download_url_step(5) [OF continue(1)] have "isfile w1 (data_dir @ last (split CHR ''/'' u))"
        by simp
      with True isfile_mono [OF download_loop_files_mono [OF continue(2)]] show ?thesis by simp
    next
      case False
      with Cons.prems(2) Cons.IH [OF continue(2)] show ?thesis by simp
    qed
  qed
qed

lemma download_cell_cases:
  assumes "download_cell env links w = (err, w')"
  obtains (no_session) e where "get_requests_https_session env = Inl e" "err = Some e" "w' = w"
  | (session) fs where "get_requests_https_session env = Inr fs"
      "download_loop (fs_get env fs) links w = (err, w')"
  using assms by (auto simp: download_cell_def split: sum.splits)

section \<open>The asset filter (cell 29)\<close>

text \<open>
  C1. For every list of per-granule URL lists and every list of desired substrings the
  filter loop returns (it raises nothing) the URLs of the flattened input, in their order,
  whose asset name contains a desired substring; the test is on the characters as they
  are, so it is case-sensitive. The asset name is the final path segment: it holds no
  \<open>/\<close> and is the whole URL or what follows its last \<open>/\<close>.
\<close>

theorem filtered_asset_links_spec:
  "filtered_asset_links desired_assets emit_results_urls =
     Inr (filter (\<lambda>url. \<exists>asset \<in> set desired_assets. \<exists>name. asset_name url = Inr name \<and> sublist asset name)
            (concat emit_results_urls))
   \<and> (\<forall>url. \<exists>name. asset_name url = Inr name \<and> CHR ''/'' \<notin> set name \<and>
          (url = name \<or> (\<exists>pre. url = pre @ CHR ''/'' # name)))"
proof
  show "filtered_asset_links desired_assets emit_results_urls =
     Inr (filter (\<lambda>url. \<exists>asset \<in> set desired_assets. \<exists>name. asset_name url = Inr name \<and> sublist asset name)
            (concat emit_results_urls))"
    by (simp add: filtered_asset_links_def filter_granules_eq wanted_iff asset_name_last)
  show "\<forall>url. \<exists>name. asset_name url = Inr name \<and> CHR ''/'' \<notin> set name \<and>
          (url = name \<or> (\<exists>pre. url = pre @ CHR ''/'' # name))"
    using asset_name_final_segment by blast
qed

text \<open>
  At two desired substrings and three granules: the lower-case name and the URL that has
  \<open>RFL_\<close> only in a directory are left out, the order is kept.
\<close>

theorem filtered_asset_links_spec_witness:
  "filtered_asset_links [''RFL_'', ''MASK'']
     [[''https://d/a/EMIT_RFL_1.nc'', ''https://d/a/EMIT_rfl_1.nc''], [],
      [''https://d/RFL_/EMIT_UNC_1.nc'', ''EMIT_MASK_1.nc'']] =
   Inr [''https://d/a/EMIT_RFL_1.nc'', ''EMIT_MASK_1.nc'']
   \<and> asset_name ''https://d/RFL_/EMIT_UNC_1.nc'' = Inr ''EMIT_UNC_1.nc''"
  using filtered_asset_links_spec [of "[''RFL_'', ''MASK'']"
     "[[''https://d/a/EMIT_RFL_1.nc'', ''https://d/a/EMIT_rfl_1.nc''], [],
      [''https://d/RFL_/EMIT_UNC_1.nc'', ''EMIT_MASK_1.nc'']]"]
  by (simp add: asset_name_def getitem_def str_in_sublist [symmetric])

text \<open>
  C4. The three example URLs against the one desired substring \<open>RFL_\<close>, as one granule and
  as three, give the reflectance URL alone; \<open>RFL_\<close> is no substring of \<open>RFLUNC\<close> nor of the
  uncertainty product's asset name.
\<close>

theorem filter_reflectance_example:
  "filtered_asset_links [''RFL_'']
     [[''.../EMIT_RFL_001.nc'', ''.../EMIT_RFLUNC_001.nc'', ''.../EMIT_MASK_001.nc'']] =
   Inr [''.../EMIT_RFL_001.nc'']
   \<and> filtered_asset_links [''RFL_'']
     [[''.../EMIT_RFL_001.nc''], [''.../EMIT_RFLUNC_001.nc''], [''.../EMIT_MASK_001.nc'']] =
   Inr [''.../EMIT_RFL_001.nc'']
   \<and> \<not> str_in ''RFL_'' ''RFLUNC''
   \<and> asset_name ''.../EMIT_RFLUNC_001.nc'' = Inr ''EMIT_RFLUNC_001.nc''
   \<and> \<not> str_in ''RFL_'' ''EMIT_RFLUNC_001.nc''"
  by (simp add: filtered_asset_links_def asset_name_def getitem_def wanted_def)

text \<open>C6. With no desired substring the filter returns the empty list, whatever the granules.\<close>

theorem filter_no_desired_assets:
  "filtered_asset_links [] emit_results_urls = Inr []"
  by (simp add: filtered_asset_links_def filter_granules_eq wanted_def)

text \<open>
  C10. When the empty string is one of the desired substrings the filter keeps every URL:
  the result is the flattened input.
\<close>

theorem filter_empty_string_desired:
  assumes "[] \<in> set desired_assets"
  shows "filtered_asset_links desired_assets emit_results_urls = Inr (concat emit_results_urls)"
proof -
  have "wanted desired_assets name" for name
    using assms by (auto simp: wanted_iff)
  then show ?thesis by (simp add: filtered_asset_links_def filter_granules_eq)
qed

theorem filter_empty_string_desired_witness:
  "[] \<in> set [''RFL_'', ''''] \<and>
   filtered_asset_links [''RFL_'', ''''] [[''https://d/a/EMIT_MASK_1.nc'', ''x''], [''''], [''/y/'']] =
     Inr [''https://d/a/EMIT_MASK_1.nc'', ''x'', '''', ''/y/'']"
  using filter_empty_string_desired [of "[''RFL_'', '''']" "[[''https://d/a/EMIT_MASK_1.nc'', ''x''], [''''], [''/y/'']]"]
  by simp

section \<open>The stream cell (cell 31)\<close>

text \<open>
  C9. The stream cell reads \<^verbatim>\<open>filtered_asset_links[0]\<close> with no test before it. On the empty
  list the cell never returns a dataset: once the session is there, it ends with
  \<open>IndexError\<close>, not with an error of its own wording and not by doing nothing. On a
  list with a first element the read succeeds and the cell opens that URL. The filter
  returns the empty list when there is no granule and when no asset name is wanted.
\<close>

theorem stream_cell_first_link:
  "(\<forall>ds. stream_cell env [] \<noteq> Inr ds) \<and>
   (\<forall>fs. get_fsspec_https_session env = Inr fs \<longrightarrow> stream_cell env [] = Inl IndexError) \<and>
   (\<forall>fs url rest. get_fsspec_https_session env = Inr fs \<longrightarrow>
      stream_cell env (url # rest) =
        (case fs_open env fs url of Inl e \<Rightarrow> Inl e | Inr fp \<Rightarrow> emit_xarray env fp)) \<and>
   filtered_asset_links desired_assets [] = Inr [] \<and>
   ((\<forall>url \<in> set (concat emit_results_urls). \<forall>name. asset_name url = Inr name \<longrightarrow>
        \<not> wanted desired_assets name) \<longrightarrow>
      filtered_asset_links desired_assets emit_results_urls = Inr [])"
proof (intro conjI allI impI)
  fix ds
  show "stream_cell env [] \<noteq> Inr ds"
    by (simp add: stream_cell_def getitem_def split: sum.splits)
next
  fix fs
  assume "get_fsspec_https_session env = Inr fs"
  then show "stream_cell env [] = Inl IndexError"
    by (simp add: stream_cell_def getitem_def)
next
  fix fs url rest
  assume "get_fsspec_https_session env = Inr fs"
  then show "stream_cell env (url # rest) =
        (case fs_open env fs url of Inl e \<Rightarrow> Inl e | Inr fp \<Rightarrow> emit_xarray env fp)"
    by (simp add: stream_cell_def getitem_def asset_name_last)
next
  show "filtered_asset_links desired_assets [] = Inr []"
    by (simp add: filtered_asset_links_def)
next
  assume "\<forall>url \<in> set (concat emit_results_urls). \<forall>name. asset_name url = Inr name \<longrightarrow>
        \<not> wanted desired_assets name"
  then have "filter (\<lambda>url. wanted desired_assets (last (split CHR ''/'' url))) (concat emit_results_urls) = []"
    by (simp add: asset_name_last)
  then show "filtered_asset_links desired_assets emit_results_urls = Inr []"
    by (simp add: filtered_asset_links_def filter_granules_eq)
qed

theorem stream_cell_first_link_witness:
  "get_fsspec_https_session
     \<lparr>get_fsspec_https_session = Inr (0::nat), fs_open = (\<lambda>fs url. Inr url),
      emit_xarray = (\<lambda>fp. Inr (length fp))\<rparr> = Inr 0 \<and>
   stream_cell
     \<lparr>get_fsspec_https_session = Inr (0::nat), fs_open = (\<lambda>fs url. Inr url),
      emit_xarray = (\<lambda>fp. Inr (length fp))\<rparr> [] = Inl IndexError \<and>
   stream_cell
     \<lparr>get_fsspec_https_session = Inr (0::nat), fs_open = (\<lambda>fs url. Inr url),
      emit_xarray = (\<lambda>fp. Inr (length fp))\<rparr> [''a/b.nc'', ''c''] = Inr 6 \<and>
   \<not> wanted [''RFL_''] ''EMIT_MASK_1.nc'' \<and>
   filtered_asset_links [''RFL_''] [[''https://d/EMIT_MASK_1.nc'']] = Inr []"
  using stream_cell_first_link [of
     "\<lparr>get_fsspec_https_session = Inr (0::nat), fs_open = (\<lambda>fs url. Inr url),
      emit_xarray = (\<lambda>fp. Inr (length fp))\<rparr>" "[''RFL_'']" "[[''https://d/EMIT_MASK_1.nc'']]"]
  by (simp add: asset_name_def getitem_def wanted_def)


section \<open>The download cell (cell 33)\<close>

text \<open>
  Example runs. Two URLs, the file of the second already there with other content; the
  response to each request yields two pieces of different sizes and ends.
\<close>

lemma example_names:
  "asset_name ''h/a/R1.nc'' = Inr ''R1.nc''" "asset_name ''h/b/R2.nc'' = Inr ''R2.nc''"
  "asset_name ''h/b/R1.nc'' = Inr ''R1.nc''" "asset_name ''h/a/'' = Inr ''''"
  by (simp_all add: asset_name_def getitem_def)

lemma example_run:
  "download_cell
     \<lparr>get_requests_https_session = Inr (0::nat),
      fs_get = (\<lambda>fs url. Inr \<lparr>iter_content = (\<lambda>n. ([[5, 6], [7]], None))\<rparr>)\<rparr>
     [''h/a/R1.nc'', ''h/b/R2.nc'']
     \<lparr>files = [''../../data/R2.nc'' \<mapsto> [9]], open_raises = Map.empty,
      requests = [], writes = []\<rparr> =
   (None,
    \<lparr>files = [''../../data/R2.nc'' \<mapsto> [9], ''../../data/R1.nc'' \<mapsto> [5, 6, 7]],
     open_raises = Map.empty, requests = [''h/a/R1.nc''],
     writes = [(''../../data/R1.nc'', [5, 6]), (''../../data/R1.nc'', [7])]\<rparr>)"
proof -
  let ?get = "\<lambda>url :: string. Inr \<lparr>iter_content = (\<lambda>n. ([[5, 6], [7]], None))\<rparr> :: py_error + response"
  let ?w = "\<lparr>files = [''../../data/R2.nc'' \<mapsto> [9]], open_raises = Map.empty,
      requests = [], writes = []\<rparr>"
  let ?w' = "\<lparr>files = [''../../data/R2.nc'' \<mapsto> [9], ''../../data/R1.nc'' \<mapsto> [5, 6, 7]],
     open_raises = Map.empty, requests = [''h/a/R1.nc''],
     writes = [(''../../data/R1.nc'', [5, 6]), (''../../data/R1.nc'', [7])]\<rparr>"
  have "\<not> isfile ?w (data_dir @ ''R1.nc'')" by (simp add: isfile_def data_dir_def)
  from download_url_stream [OF example_names(1) this, of ?get _ "[[5, 6], [7]]" None]
  have first: "download_url ?get ''h/a/R1.nc'' ?w = (None, ?w')"
    by (simp add: data_dir_def)
  have "isfile ?w' (data_dir @ ''R2.nc'')" by (simp add: isfile_def data_dir_def)
  from download_url_skip [OF example_names(2) this, of ?get]
  have second: "download_url ?get ''h/b/R2.nc'' ?w' = (None, ?w')" .
  show ?thesis by (simp add: download_cell_def first second)
qed




text \<open>
  C3. A pass of the loop body for a URL whose destination is a local file, whatever its
  content, returns the state as it was: no file changed, no request sent, no \<open>write\<close> call.
  Over the whole cell, every file that was there before has its content afterwards, and
  among the requests sent and the \<open>write\<close> calls made by the cell none is for a URL or to
  a destination that was a local file before.
\<close>

theorem download_skips_existing_file:
  "(\<forall>name. asset_name url = Inr name \<longrightarrow> isfile w (data_dir @ name) \<longrightarrow>
      download_url get url w = (None, w)) \<and>
   (\<forall>links err w'. download_cell env links w = (err, w') \<longrightarrow>
      (\<forall>fp. isfile w fp \<longrightarrow> files w' fp = files w fp) \<and>
      (\<exists>sent written. requests w' = requests w @ sent \<and> writes w' = writes w @ written \<and>
         (\<forall>u name. asset_name u = Inr name \<longrightarrow> isfile w (data_dir @ name) \<longrightarrow>
            u \<notin> set sent \<and> data_dir @ name \<notin> fst ` set written)))"
proof (intro conjI allI impI)
  fix name
  assume "asset_name url = Inr name" and "isfile w (data_dir @ name)"
  then show "download_url get url w = (None, w)" by (rule download_url_skip)
next
  fix links err w' fp
  assume run: "download_cell env links w = (err, w')" and "isfile w fp"
  from run have "files w \<subseteq>\<^sub>m files w'"
    by (cases rule: download_cell_cases) (auto dest: download_loop_files_mono)
  with \<open>isfile w fp\<close> show "files w' fp = files w fp"
    by (auto simp: isfile_def map_le_def dom_def split: option.splits)
next
  fix links err w'
  assume run: "download_cell env links w = (err, w')"
  then obtain sent written where
    sent: "requests w' = requests w @ sent"
      "\<forall>u \<in> set sent. \<not> isfile w (data_dir @ last (split CHR ''/'' u))" and
    written: "writes w' = writes w @ written" "\<forall>entry \<in> set written. \<not> isfile w (fst entry)"
  proof (cases rule: download_cell_cases)
    case (no_session e)
    then have "requests w' = requests w @ []" "writes w' = writes w @ []" by simp_all
    then show ?thesis using that [of "[]" "[]"] by simp
  next
    case (session fs)
    from download_loop_requests [OF session(2)] obtain s where
      "requests w' = requests w @ s"
      "\<forall>u \<in> set s. \<not> isfile w (data_dir @ last (split CHR ''/'' u))" by blast
    moreover from download_loop_writes [OF session(2)] obtain n where
      "writes w' = writes w @ n" "\<forall>entry \<in> set n. \<not> isfile w (fst entry)" by blast
    ultimately show ?thesis using that by blast
  qed
  have "u \<notin> set sent \<and> data_dir @ name \<notin> fst ` set written"
    if "asset_name u = Inr name" "isfile w (data_dir @ name)" for u name
  proof -
    from that(1) have "name = last (split CHR ''/'' u)" by (simp add: asset_name_last)
    with that(2) sent(2) written(2) show ?thesis by auto
  qed
  with sent(1) written(1)
  show "\<exists>sent written. requests w' = requests w @ sent \<and> writes w' = writes w @ written \<and>
         (\<forall>u name. asset_name u = Inr name \<longrightarrow> isfile w (data_dir @ name) \<longrightarrow>
            u \<notin> set sent \<and> data_dir @ name \<notin> fst ` set written)"
    by blast
qed

text \<open>
  An example run: the destination of the second URL is there, with content other than
  what the response would deliver, and stays as it is; the first URL is fetched.
\<close>

theorem download_skips_existing_file_witness:
  "asset_name ''h/b/R2.nc'' = Inr ''R2.nc'' \<and>
   isfile \<lparr>files = [''../../data/R2.nc'' \<mapsto> [9]], open_raises = Map.empty,
      requests = [], writes = []\<rparr> (data_dir @ ''R2.nc'') \<and>
   download_url (\<lambda>url. Inr \<lparr>iter_content = (\<lambda>n. ([[5, 6], [7]], None))\<rparr>) ''h/b/R2.nc''
     \<lparr>files = [''../../data/R2.nc'' \<mapsto> [9]], open_raises = Map.empty,
      requests = [], writes = []\<rparr> =
     (None, \<lparr>files = [''../../data/R2.nc'' \<mapsto> [9]], open_raises = Map.empty,
        requests = [], writes = []\<rparr>) \<and>
   download_cell
     \<lparr>get_requests_https_session = Inr (0::nat),
      fs_get = (\<lambda>fs url. Inr \<lparr>iter_content = (\<lambda>n. ([[5, 6], [7]], None))\<rparr>)\<rparr>
     [''h/a/R1.nc'', ''h/b/R2.nc'']
     \<lparr>files = [''../../data/R2.nc'' \<mapsto> [9]], open_raises = Map.empty,
      requests = [], writes = []\<rparr> =
   (None,
    \<lparr>files = [''../../data/R2.nc'' \<mapsto> [9], ''../../data/R1.nc'' \<mapsto> [5, 6, 7]],
     open_raises = Map.empty, requests = [''h/a/R1.nc''],
     writes = [(''../../data/R1.nc'', [5, 6]), (''../../data/R1.nc'', [7])]\<rparr>)"
proof -
  let ?w = "\<lparr>files = [''../../data/R2.nc'' \<mapsto> [9]], open_raises = Map.empty,
      requests = [], writes = []\<rparr>"
  let ?get = "\<lambda>url :: string. Inr \<lparr>iter_content = (\<lambda>n. ([[5, 6], [7]], None))\<rparr> :: py_error + response"
  have there: "isfile ?w (data_dir @ ''R2.nc'')" by (simp add: isfile_def data_dir_def)
  from download_skips_existing_file [of "''h/b/R2.nc''" ?w ?get] example_names(2) there
  have "download_url ?get ''h/b/R2.nc'' ?w = (None, ?w)" by blast
  with example_names(2) there example_run show ?thesis by blast
qed

text \<open>
  C8. A pass of the loop body leaves every file but \<open>../../data/<asset name>\<close> of its URL
  as it was, and all its \<open>write\<close> calls go to that one path. Over the whole cell, a file
  whose content differs afterwards, and the target of every \<open>write\<close> call, is
  \<open>../../data/\<close> followed by the asset name of one of the URLs. The files are per asset
  name, not per URL: the URLs the cell requests are URLs of the list with pairwise
  different asset names, so each requested URL writes a file of its own, and when the cell
  ends without an exception that file holds the pieces delivered for its URL, in order.
  Then every URL of the list has a local file at its path, and the file was there before
  the cell or is the file of a requested URL with the same asset name: a URL whose asset
  name is that of an earlier one is skipped. The asset name is the last path segment of
  the URL: it has no \<open>/\<close>, so the file lies in the data directory itself.
\<close>

theorem download_cell_destinations:
  "(\<forall>e w1 name. download_url get url w0 = (e, w1) \<longrightarrow> asset_name url = Inr name \<longrightarrow>
      (\<forall>fp. fp \<noteq> data_dir @ name \<longrightarrow> files w1 fp = files w0 fp) \<and>
      (\<exists>written. writes w1 = writes w0 @ written \<and> fst ` set written \<subseteq> {data_dir @ name})) \<and>
   (\<forall>err w'. download_cell env links w = (err, w') \<longrightarrow>
      (\<forall>fp. files w' fp \<noteq> files w fp \<longrightarrow>
         (\<exists>url \<in> set links. \<exists>name. asset_name url = Inr name \<and> fp = data_dir @ name)) \<and>
      (\<exists>written. writes w' = writes w @ written \<and>
         (\<forall>entry \<in> set written. \<exists>url \<in> set links. \<exists>name.
            asset_name url = Inr name \<and> fst entry = data_dir @ name)) \<and>
      (\<exists>sent. requests w' = requests w @ sent \<and> set sent \<subseteq> set links \<and>
         distinct (map asset_name sent) \<and>
         (err = None \<longrightarrow>
            (\<forall>url \<in> set sent. \<exists>fs src chunks name.
               get_requests_https_session env = Inr fs \<and> fs_get env fs url = Inr src \<and>
               iter_content src chunk_size = (chunks, None) \<and>
               asset_name url = Inr name \<and> files w' (data_dir @ name) = Some (concat chunks)) \<and>
            (\<forall>url \<in> set links. \<exists>name. asset_name url = Inr name \<and> isfile w' (data_dir @ name) \<and>
               (isfile w (data_dir @ name) \<or> (\<exists>v \<in> set sent. asset_name v = Inr name)))))) \<and>
   (\<forall>url. \<exists>name. asset_name url = Inr name \<and> CHR ''/'' \<notin> set name \<and>
      (url = name \<or> (\<exists>pre. url = pre @ CHR ''/'' # name)))"
proof (intro conjI allI impI)
  fix e w1 name fp
  assume "download_url get url w0 = (e, w1)" and "asset_name url = Inr name"
    and "fp \<noteq> data_dir @ name"
  then show "files w1 fp = files w0 fp"
    using download_url_step(2) [of get url w0 e w1 fp] by (simp add: asset_name_last)
next
  fix e w1 name
  assume "download_url get url w0 = (e, w1)" and "asset_name url = Inr name"
  then show "\<exists>written. writes w1 = writes w0 @ written \<and> fst ` set written \<subseteq> {data_dir @ name}"
    using download_url_step(4) [of get url w0 e w1] by (auto simp: asset_name_last)
next
  fix err w' fp
  assume "download_cell env links w = (err, w')" and "files w' fp \<noteq> files w fp"
  then show "\<exists>url \<in> set links. \<exists>name. asset_name url = Inr name \<and> fp = data_dir @ name"
    by (cases rule: download_cell_cases) (auto simp: asset_name_last dest: download_loop_changed)
next
  fix err w'
  assume "download_cell env links w = (err, w')"
  then show "\<exists>written. writes w' = writes w @ written \<and>
         (\<forall>entry \<in> set written. \<exists>url \<in> set links. \<exists>name.
            asset_name url = Inr name \<and> fst entry = data_dir @ name)"
  proof (cases rule: download_cell_cases)
    case (no_session e)
    then have "writes w' = writes w @ []" by simp
    then show ?thesis by fastforce
  next
    case (session fs)
    from download_loop_writes [OF session(2)] show ?thesis
      by (auto simp: asset_name_last)
  qed
next
  fix err w'
  let ?seg = "\<lambda>u. last (split CHR ''/'' u)"
  assume "download_cell env links w = (err, w')"
  then show "\<exists>sent. requests w' = requests w @ sent \<and> set sent \<subseteq> set links \<and>
         distinct (map asset_name sent) \<and>
         (err = None \<longrightarrow>
            (\<forall>url \<in> set sent. \<exists>fs src chunks name.
               get_requests_https_session env = Inr fs \<and> fs_get env fs url = Inr src \<and>
               iter_content src chunk_size = (chunks, None) \<and>
               asset_name url = Inr name \<and> files w' (data_dir @ name) = Some (concat chunks)) \<and>
            (\<forall>url \<in> set links. \<exists>name. asset_name url = Inr name \<and> isfile w' (data_dir @ name) \<and>
               (isfile w (data_dir @ name) \<or> (\<exists>v \<in> set sent. asset_name v = Inr name))))"
  proof (cases rule: download_cell_cases)
    case (no_session e)
    then have "requests w' = requests w @ []" "err \<noteq> None" by simp_all
    then show ?thesis by fastforce
  next
    case (session fs)
    from download_loop_requests [OF session(2)] obtain sent where
      sent: "requests w' = requests w @ sent"
        "\<forall>u \<in> set sent. u \<in> set links \<and> \<not> isfile w (data_dir @ ?seg u)"
        "distinct (map ?seg sent)"
        "err = None \<longrightarrow> (\<forall>u \<in> set sent. \<exists>src chunks. fs_get env fs u = Inr src \<and>
           iter_content src chunk_size = (chunks, None) \<and>
           files w' (data_dir @ ?seg u) = Some (concat chunks))"
        "\<forall>p. isfile w' p \<longrightarrow> isfile w p \<or> (\<exists>u \<in> set sent. p = data_dir @ ?seg u)"
      by blast
    have "map asset_name sent = map Inr (map ?seg sent)"
      by (simp add: asset_name_last)
    with sent(3) have dist: "distinct (map asset_name sent)"
      by (simp add: distinct_map del: map_map)
    have sub: "set sent \<subseteq> set links" using sent(2) by auto
    have held: "\<forall>u \<in> set sent. \<exists>fs src chunks name.
               get_requests_https_session env = Inr fs \<and> fs_get env fs u = Inr src \<and>
               iter_content src chunk_size = (chunks, None) \<and>
               asset_name u = Inr name \<and> files w' (data_dir @ name) = Some (concat chunks)"
      if "err = None"
      using sent(4) that session(1) by (fastforce simp: asset_name_last)
    have all: "\<forall>u \<in> set links. \<exists>name. asset_name u = Inr name \<and> isfile w' (data_dir @ name) \<and>
               (isfile w (data_dir @ name) \<or> (\<exists>v \<in> set sent. asset_name v = Inr name))"
      if "err = None"
    proof
      fix u
      assume "u \<in> set links"
      with session(2) that have here: "isfile w' (data_dir @ ?seg u)"
        using download_loop_all_present [of "fs_get env fs" links w w' u] by simp
      with sent(5) have "isfile w (data_dir @ ?seg u) \<or>
          (\<exists>v \<in> set sent. data_dir @ ?seg u = data_dir @ ?seg v)" by blast
      then have "isfile w (data_dir @ ?seg u) \<or> (\<exists>v \<in> set sent. asset_name v = Inr (?seg u))"
        by (auto simp: asset_name_last)
      with here show "\<exists>name. asset_name u = Inr name \<and> isfile w' (data_dir @ name) \<and>
               (isfile w (data_dir @ name) \<or> (\<exists>v \<in> set sent. asset_name v = Inr name))"
        by (simp add: asset_name_last)
    qed
    from sent(1) sub dist held all show ?thesis by blast
  qed
next
  fix url
  show "\<exists>name. asset_name url = Inr name \<and> CHR ''/'' \<notin> set name \<and>
      (url = name \<or> (\<exists>pre. url = pre @ CHR ''/'' # name))"
    by (rule asset_name_final_segment)
qed

theorem download_cell_destinations_witness:
  "download_cell
     \<lparr>get_requests_https_session = Inr (0::nat),
      fs_get = (\<lambda>fs url. Inr \<lparr>iter_content = (\<lambda>n. ([[5, 6], [7]], None))\<rparr>)\<rparr>
     [''h/a/R1.nc'', ''h/b/R2.nc'']
     \<lparr>files = [''../../data/R2.nc'' \<mapsto> [9]], open_raises = Map.empty,
      requests = [], writes = []\<rparr> =
   (None,
    \<lparr>files = [''../../data/R2.nc'' \<mapsto> [9], ''../../data/R1.nc'' \<mapsto> [5, 6, 7]],
     open_raises = Map.empty, requests = [''h/a/R1.nc''],
     writes = [(''../../data/R1.nc'', [5, 6]), (''../../data/R1.nc'', [7])]\<rparr>) \<and>
   (\<exists>name. asset_name ''h/a/R1.nc'' = Inr name \<and>
      isfile \<lparr>files = [''../../data/R2.nc'' \<mapsto> [9], ''../../data/R1.nc'' \<mapsto> [5, 6, 7]],
         open_raises = Map.empty, requests = [''h/a/R1.nc''],
         writes = [(''../../data/R1.nc'', [5, 6]), (''../../data/R1.nc'', [7])]\<rparr>
        (data_dir @ name))"
proof -
  let ?env = "\<lparr>get_requests_https_session = Inr (0::nat),
      fs_get = (\<lambda>fs url. Inr \<lparr>iter_content = (\<lambda>n. ([[5, 6], [7]], None))\<rparr>)\<rparr>"
  let ?links = "[''h/a/R1.nc'', ''h/b/R2.nc'']"
  let ?w = "\<lparr>files = [''../../data/R2.nc'' \<mapsto> [9]], open_raises = Map.empty,
      requests = [], writes = []\<rparr>"
  from download_cell_destinations [of _ _ _ ?env ?links ?w] example_run
  have "\<forall>url \<in> set ?links. \<exists>name. asset_name url = Inr name \<and>
      isfile \<lparr>files = [''../../data/R2.nc'' \<mapsto> [9], ''../../data/R1.nc'' \<mapsto> [5, 6, 7]],
         open_raises = Map.empty, requests = [''h/a/R1.nc''],
         writes = [(''../../data/R1.nc'', [5, 6]), (''../../data/R1.nc'', [7])]\<rparr>
        (data_dir @ name)"
    by blast
  with example_run show ?thesis by simp
qed

text \<open>
  Two URLs of different assets with the same last path segment: the cell ends without an
  exception, has sent one request and left one file, which holds the first asset; the
  second URL has no file of its own.
\<close>

theorem download_cell_one_file_per_url_counterexample:
  "''h/a/R1.nc'' \<noteq> ''h/b/R1.nc'' \<and>
   asset_name ''h/a/R1.nc'' = Inr ''R1.nc'' \<and>
   asset_name ''h/b/R1.nc'' = Inr ''R1.nc'' \<and>
   download_cell
     \<lparr>get_requests_https_session = Inr (0::nat),
      fs_get = (\<lambda>fs url.
        Inr \<lparr>iter_content = (\<lambda>n. (if url = ''h/a/R1.nc'' then [[5]] else [[9]], None))\<rparr>)\<rparr>
     [''h/a/R1.nc'', ''h/b/R1.nc'']
     \<lparr>files = Map.empty, open_raises = Map.empty, requests = [], writes = []\<rparr> =
   (None,
    \<lparr>files = [''../../data/R1.nc'' \<mapsto> [5]], open_raises = Map.empty,
     requests = [''h/a/R1.nc''], writes = [(''../../data/R1.nc'', [5])]\<rparr>)"
proof -
  let ?get = "\<lambda>url :: string.
     Inr \<lparr>iter_content = (\<lambda>n. (if url = ''h/a/R1.nc'' then [[5]] else [[9]], None))\<rparr> :: py_error + response"
  let ?w = "\<lparr>files = Map.empty, open_raises = Map.empty, requests = [], writes = []\<rparr>"
  let ?w' = "\<lparr>files = [''../../data/R1.nc'' \<mapsto> [5]], open_raises = Map.empty,
     requests = [''h/a/R1.nc''], writes = [(''../../data/R1.nc'', [5])]\<rparr>"
  have "\<not> isfile ?w (data_dir @ ''R1.nc'')" by (simp add: isfile_def)
  from download_url_stream [OF example_names(1) this, of ?get _ "[[5]]" None]
  have first: "download_url ?get ''h/a/R1.nc'' ?w = (None, ?w')"
    by (simp add: data_dir_def)
  have "isfile ?w' (data_dir @ ''R1.nc'')" by (simp add: isfile_def data_dir_def)
  from download_url_skip [OF example_names(3) this, of ?get]
  have second: "download_url ?get ''h/b/R1.nc'' ?w' = (None, ?w')" .
  have run: "download_cell
     \<lparr>get_requests_https_session = Inr (0::nat), fs_get = (\<lambda>fs. ?get)\<rparr>
     [''h/a/R1.nc'', ''h/b/R1.nc''] ?w = (None, ?w')"
    by (simp add: download_cell_def first second)
  have "''h/a/R1.nc'' \<noteq> ''h/b/R1.nc''" by simp
  with example_names(1,3) run show ?thesis by blast
qed

end
